theory Spec2Isabelle
  imports Complex_Main "HOL-Library.Log_Nat"
begin

section \<open>Python values used by converter.py\<close>

subsection \<open>Double-precision arithmetic\<close>

text \<open>
  \<^verbatim>\<open>converter.py\<close> computes its progress figures in Python floats:
  \<^verbatim>\<open>math.ceil(total_faces / 100)\<close> and
  \<^verbatim>\<open>int((face_processed / total_faces) * (90 - 12))\<close>.
  A Python float is an IEEE 754 binary64 number and every operation returns the exact
  result rounded to the nearest representable number, ties to the even significand.
  The numbers are modelled as the rationals they denote; \<open>round53\<close> rounds a rational
  to a 53-bit significand. Exponent overflow and subnormal numbers are left out: the
  quotients and products of the program lie between \<open>1 / total_faces\<close> and \<open>78\<close>.
\<close>

definition rne :: "rat \<Rightarrow> int" where
  \<comment> \<open>nearest integer, ties to even\<close>
  "rne x = (let f = \<lfloor>x\<rfloor>; d = x - of_int f
            in if d < 1 / 2 then f else if 1 / 2 < d then f + 1
               else if even f then f else f + 1)"

definition expo :: "rat \<Rightarrow> int" where
  \<comment> \<open>the binary exponent of a positive rational: \<open>2 powi expo x \<le> x < 2 powi (expo x + 1)\<close>\<close>
  "expo x = (let (p, q) = quotient_of x;
                 e0 = int (floorlog 2 (nat p)) - int (floorlog 2 (nat q))
             in if 2 powi e0 \<le> x then e0 else e0 - 1)"

definition round53 :: "rat \<Rightarrow> rat" where
  "round53 x = (if x = 0 then 0
      else let e = expo \<bar>x\<bar> - 52
           in sgn x * of_int (rne (\<bar>x\<bar> / 2 powi e)) * 2 powi e)"

definition py_truediv :: "nat \<Rightarrow> nat \<Rightarrow> rat" where
  \<comment> \<open>\<^verbatim>\<open>a / b\<close> on two ints (the divisor is never zero where the program divides)\<close>
  "py_truediv a b = round53 (of_nat a / of_nat b)"

definition py_float_mul :: "rat \<Rightarrow> rat \<Rightarrow> rat" where
  "py_float_mul x y = round53 (x * y)"

definition py_int :: "rat \<Rightarrow> int" where
  \<comment> \<open>\<^verbatim>\<open>int(x)\<close> truncates towards zero\<close>
  "py_int x = (if 0 \<le> x then \<lfloor>x\<rfloor> else \<lceil>x\<rceil>)"

definition math_ceil :: "rat \<Rightarrow> int" where
  "math_ceil x = \<lceil>x\<rceil>"

subsection \<open>Strings\<close>

function str_nat :: "nat \<Rightarrow> string" where
  "str_nat n = (if n < 10 then [char_of (48 + n)]
                else str_nat (n div 10) @ [char_of (48 + n mod 10)])"
  by pat_completeness auto
termination
  by (relation "measure id") auto

declare str_nat.simps [simp del]

subsection \<open>Exceptions\<close>

text \<open>
  An exception is its class, as far as the program's \<^verbatim>\<open>except\<close> clauses tell
  classes apart, with the texts of \<^verbatim>\<open>str(e)\<close> and of
  \<^verbatim>\<open>traceback.format_exc()\<close>. All of them derive from \<^verbatim>\<open>Exception\<close>.
  A call of an external library returns \<open>Inr\<close> of its value or \<open>Inl\<close> of the exception
  it raises.
\<close>

datatype exn_class = TypeError | OtherException

datatype exn = Exn (exn_class: exn_class) (exn_str: string) (exn_tb: string)

section \<open>The progress observer\<close>

record ProgressEvent =
  percent :: "int option"
  state :: "string option"
  message :: "string option"

text \<open>
  The callback either returns or raises. It may keep state of its own, so its behaviour
  is a function of the events it was called with before and of the new one.
\<close>

datatype cb_outcome = Returned | Raised exn

type_synonym ProgressCB = "(ProgressEvent list \<Rightarrow> ProgressEvent \<Rightarrow> cb_outcome) option"

definition progress_event :: "int \<Rightarrow> string \<Rightarrow> string \<Rightarrow> ProgressEvent" where
  "progress_event p s m = \<lparr>percent = Some p, state = Some s, message = Some m\<rparr>"

text \<open>
  \<^verbatim>\<open>_safe_call_progress\<close>: the second argument is the list of the calls made to the
  callback so far, the result that list after this checkpoint.
\<close>

definition safe_call_progress :: "ProgressCB \<Rightarrow> ProgressEvent list \<Rightarrow> ProgressEvent \<Rightarrow> ProgressEvent list" where
  "safe_call_progress cb calls ev =
     (case cb of
        None \<Rightarrow> calls
      | Some f \<Rightarrow>
          (case f calls ev of
             Returned \<Rightarrow> calls @ [ev]
           | Raised e \<Rightarrow> \<comment> \<open>\<^verbatim>\<open>except Exception: pass\<close>\<close> calls @ [ev]))"

section \<open>The tessellated shape\<close>

text \<open>
  Coordinates have an arbitrary type \<open>'a\<close>; \<open>rnd\<close> below stands for
  \<^verbatim>\<open>round(float(x), round_decimals)\<close> and maps a coordinate to a rounded coordinate of
  type \<open>'k\<close>, compared as Python compares dictionary keys.
\<close>

type_synonym 'a point = "'a \<times> 'a \<times> 'a"

record 'a Poly_Triangulation =
  nodes :: "'a point list"
  triangles :: "(nat \<times> nat \<times> nat) list"  \<comment> \<open>1-based node numbers\<close>

text \<open>
  \<^verbatim>\<open>BRep_Tool.Triangulation(face, loc)\<close> gives the triangulation of a face, or
  \<^verbatim>\<open>None\<close>, and its location. \<open>trsf\<close> is \<^verbatim>\<open>loc.Transformation()\<close>: \<open>Inr t\<close> when
  \<^verbatim>\<open>p.Transformed(trsf)\<close> returns \<open>t p\<close>, \<open>Inl e\<close> when the call raises \<open>e\<close> (the
  bindings reject the transformation object, whatever the point).
\<close>

record 'a face =
  triangulation :: "'a Poly_Triangulation option"
  trsf :: "exn + ('a point \<Rightarrow> 'a point)"

definition Transformed :: "exn + ('a point \<Rightarrow> 'a point) \<Rightarrow> 'a point \<Rightarrow> exn + 'a point" where
  "Transformed tr p = (case tr of Inl e \<Rightarrow> Inl e | Inr t \<Rightarrow> Inr (t p))"

text \<open>
  Everything outside \<^verbatim>\<open>converter.py\<close> that a conversion depends on: the file system,
  the imports, the STEP reader, the tessellator, the shape it leaves behind, the
  behaviour of the face explorer and of the node accessor out of range, the rounding
  configured by \<^verbatim>\<open>round_decimals\<close>, and the exporter.
\<close>

record ('a, 'k) env =
  src_exists :: bool
  src_str :: string
  import_libs :: "exn option"  \<comment> \<open>\<open>Some e\<close>: an import raises \<open>e\<close>\<close>
  ReadFile :: "exn + nat"  \<comment> \<open>the reader's status, or the reader raises\<close>
  OneShape :: "exn option"  \<comment> \<open>\<^verbatim>\<open>TransferRoots\<close> or \<^verbatim>\<open>OneShape\<close> raises\<close>
  IncrementalMesh4 :: "exn option"  \<comment> \<open>the call with four arguments\<close>
  IncrementalMesh2 :: "exn option"  \<comment> \<open>the call with two arguments\<close>
  shape :: "'a face list"  \<comment> \<open>the faces of the tessellated shape, in the explorer's order\<close>
  Next_exhausted :: "exn option"  \<comment> \<open>\<^verbatim>\<open>Next()\<close> on an explorer with no more faces\<close>
  OutOfRange :: exn  \<comment> \<open>\<^verbatim>\<open>Node(i)\<close> with \<open>i\<close> outside \<open>1..NbNodes\<close>\<close>
  rnd :: "'a \<Rightarrow> 'k"
  export_glb :: "('k \<times> 'k \<times> 'k) list \<Rightarrow> (nat \<times> nat \<times> nat) list \<Rightarrow> exn option"

definition IFSelect_RetDone :: nat where
  "IFSelect_RetDone = 1"

subsection \<open>\<^verbatim>\<open>TopExp_Explorer\<close>\<close>

text \<open>An explorer is the list of the faces it has not passed yet; the first is current.\<close>

definition More :: "'a face list \<Rightarrow> bool" where
  "More ex = (ex \<noteq> [])"

definition Current :: "'a face list \<Rightarrow> 'a face" where
  "Current ex = hd ex"

definition Next :: "('a, 'k) env \<Rightarrow> 'a face list \<Rightarrow> exn + 'a face list" where
  "Next E ex = (case ex of
                  [] \<Rightarrow> (case Next_exhausted E of None \<Rightarrow> Inr [] | Some e \<Rightarrow> Inl e)
                | f # fs \<Rightarrow> Inr fs)"

definition Node :: "('a, 'k) env \<Rightarrow> 'a Poly_Triangulation \<Rightarrow> nat \<Rightarrow> exn + 'a point" where
  "Node E t i = (if 1 \<le> i \<and> i \<le> length (nodes t) then Inr (nodes t ! (i - 1))
                 else Inl (OutOfRange E))"

section \<open>The conversion\<close>

subsection \<open>State\<close>

text \<open>
  The local variables of \<^verbatim>\<open>convert_step_to_glb\<close> that change during the face walk,
  and the calls made to the progress callback.
\<close>

record 'k conv_state =
  vertices :: "('k \<times> 'k \<times> 'k) list"
  faces :: "(nat \<times> nat \<times> nat) list"
  vertex_map :: "('k \<times> 'k \<times> 'k) \<rightharpoonup> nat"
  face_processed :: nat
  tri_count :: nat
  calls :: "ProgressEvent list"

definition init_state :: "'k conv_state" where
  "init_state = \<lparr>vertices = [], faces = [], vertex_map = Map.empty,
                  face_processed = 0, tri_count = 0, calls = []\<rparr>"

definition emit :: "ProgressCB \<Rightarrow> int \<Rightarrow> string \<Rightarrow> string \<Rightarrow> 'k conv_state \<Rightarrow> 'k conv_state" where
  "emit cb p st m s = s\<lparr>calls := safe_call_progress cb (calls s) (progress_event p st m)\<rparr>"

subsection \<open>Vertices\<close>

definition coord_of :: "('a, 'k) env \<Rightarrow> 'a point \<Rightarrow> 'k \<times> 'k \<times> 'k" where
  "coord_of E p = (case p of (x, y, z) \<Rightarrow> (rnd E x, rnd E y, rnd E z))"

definition append_vertex :: "'k conv_state \<Rightarrow> 'k \<times> 'k \<times> 'k \<Rightarrow> 'k conv_state" where
  \<comment> \<open>\<^verbatim>\<open>idx = len(vertices); vertex_map[coord] = idx; vertices.append(coord)\<close>\<close>
  "append_vertex s coord =
     s\<lparr>vertex_map := (vertex_map s)(coord \<mapsto> length (vertices s)),
       vertices := vertices s @ [coord]\<rparr>"

definition insert_node :: "('a, 'k) env \<Rightarrow> exn + ('a point \<Rightarrow> 'a point) \<Rightarrow> 'k conv_state \<Rightarrow> 'a point \<Rightarrow> 'k conv_state" where
  "insert_node E tr s p =
     (let p_t = (case Transformed tr p of Inl e \<Rightarrow> p | Inr q \<Rightarrow> q);
          coord = coord_of E p_t
      in if vertex_map s coord \<noteq> None then s else append_vertex s coord)"

text \<open>
  The node loop calls \<^verbatim>\<open>Node(i)\<close> for \<open>i = 1, \<dots>, NbNodes\<close>, which are the nodes of
  the triangulation in their order.
\<close>

definition insert_nodes :: "('a, 'k) env \<Rightarrow> exn + ('a point \<Rightarrow> 'a point) \<Rightarrow> 'k conv_state \<Rightarrow> 'a point list \<Rightarrow> 'k conv_state" where
  "insert_nodes E tr s ps = foldl (insert_node E tr) s ps"

subsection \<open>Triangles\<close>

definition transform3 :: "exn + ('a point \<Rightarrow> 'a point) \<Rightarrow> 'a point \<Rightarrow> 'a point \<Rightarrow> 'a point \<Rightarrow> 'a point \<times> 'a point \<times> 'a point" where
  "transform3 tr a b c =
     (case Transformed tr a of Inl e \<Rightarrow> (a, b, c) | Inr a_t \<Rightarrow>
      (case Transformed tr b of Inl e \<Rightarrow> (a, b, c) | Inr b_t \<Rightarrow>
       (case Transformed tr c of Inl e \<Rightarrow> (a, b, c) | Inr c_t \<Rightarrow> (a_t, b_t, c_t))))"

definition insert_missing :: "'k conv_state \<Rightarrow> 'k \<times> 'k \<times> 'k \<Rightarrow> nat option \<Rightarrow> 'k conv_state \<times> nat" where
  \<comment> \<open>\<^verbatim>\<open>if ia is None: ia = len(vertices); vertex_map[ca] = ia; vertices.append(ca)\<close>\<close>
  "insert_missing s coord i =
     (case i of None \<Rightarrow> (append_vertex s coord, length (vertices s)) | Some j \<Rightarrow> (s, j))"

definition append_triangle :: "'k conv_state \<Rightarrow> 'k \<times> 'k \<times> 'k \<Rightarrow> 'k \<times> 'k \<times> 'k \<Rightarrow> 'k \<times> 'k \<times> 'k \<Rightarrow> 'k conv_state" where
  \<comment> \<open>the three lookups come first, then the insertions of what is missing, then the triangle\<close>
  "append_triangle s ca cb cc =
     (let ia = vertex_map s ca;
          ib = vertex_map s cb;
          ic = vertex_map s cc;
          (s, ia) = insert_missing s ca ia;
          (s, ib) = insert_missing s cb ib;
          (s, ic) = insert_missing s cc ic
      in s\<lparr>faces := faces s @ [(ia, ib, ic)], tri_count := tri_count s + 1\<rparr>)"

definition add_triangle :: "('a, 'k) env \<Rightarrow> 'a Poly_Triangulation \<Rightarrow> exn + ('a point \<Rightarrow> 'a point) \<Rightarrow> 'k conv_state \<Rightarrow> nat \<times> nat \<times> nat \<Rightarrow> 'k conv_state \<times> exn option" where
  "add_triangle E t tr s tri =
     (case tri of (n1, n2, n3) \<Rightarrow>
      (case Node E t n1 of Inl e \<Rightarrow> (s, Some e) | Inr a \<Rightarrow>
       (case Node E t n2 of Inl e \<Rightarrow> (s, Some e) | Inr b \<Rightarrow>
        (case Node E t n3 of Inl e \<Rightarrow> (s, Some e) | Inr c \<Rightarrow>
          (let (a_t, b_t, c_t) = transform3 tr a b c
           in (append_triangle s (coord_of E a_t) (coord_of E b_t) (coord_of E c_t), None))))))"

fun add_triangles :: "('a, 'k) env \<Rightarrow> 'a Poly_Triangulation \<Rightarrow> exn + ('a point \<Rightarrow> 'a point) \<Rightarrow> 'k conv_state \<Rightarrow> (nat \<times> nat \<times> nat) list \<Rightarrow> 'k conv_state \<times> exn option" where
  "add_triangles E t tr s [] = (s, None)"
| "add_triangles E t tr s (tri # rest) =
     (case add_triangle E t tr s tri of
        (s1, Some e) \<Rightarrow> (s1, Some e)
      | (s1, None) \<Rightarrow> add_triangles E t tr s1 rest)"

definition add_face :: "('a, 'k) env \<Rightarrow> 'a Poly_Triangulation \<Rightarrow> exn + ('a point \<Rightarrow> 'a point) \<Rightarrow> 'k conv_state \<Rightarrow> 'k conv_state \<times> exn option" where
  \<comment> \<open>the body of the face loop for a face that has a triangulation\<close>
  "add_face E t tr s = add_triangles E t tr (insert_nodes E tr s (nodes t)) (triangles t)"

subsection \<open>Progress figures\<close>

definition update_every :: "nat \<Rightarrow> nat" where
  "update_every total_faces = nat (max 1 (math_ceil (py_truediv total_faces 100)))"

definition processing_pct :: "nat \<Rightarrow> nat \<Rightarrow> int" where
  "processing_pct fp total_faces =
     12 + py_int (py_float_mul (py_truediv fp total_faces) (90 - 12))"

definition processed_msg :: "nat \<Rightarrow> nat \<Rightarrow> string" where
  "processed_msg fp total_faces =
     ''Processed '' @ str_nat fp @ ''/'' @ str_nat total_faces @ '' faces''"

subsection \<open>The two walks over the faces\<close>

function count_faces :: "('a, 'k) env \<Rightarrow> 'a face list \<Rightarrow> nat \<Rightarrow> exn + nat" where
  "count_faces E exp_counter total_faces =
     (if More exp_counter then
        (case Next E exp_counter of
           Inl e \<Rightarrow> Inl e
         | Inr ex \<Rightarrow> count_faces E ex (total_faces + 1))
      else Inr total_faces)"
  by pat_completeness auto
termination
  by (relation "measure (\<lambda>(E, ex, n). length ex)")
     (auto simp: More_def Next_def split: list.splits)

declare count_faces.simps [simp del]

text \<open>
  The processing walk. In the branch of a face without triangulation the assignment
  \<^verbatim>\<open>pct = 12 + int((~0))\<close> has no effect on anything that is read later and is left out;
  the two calls of \<^verbatim>\<open>exp.Next()\<close> are both there.
\<close>

function face_loop :: "('a, 'k) env \<Rightarrow> ProgressCB \<Rightarrow> nat \<Rightarrow> 'k conv_state \<Rightarrow> 'a face list \<Rightarrow> 'k conv_state \<times> exn option" where
  "face_loop E cb total_faces s ex =
     (if More ex then
        (let face = Current ex;
             s = s\<lparr>face_processed := face_processed s + 1\<rparr>
         in case triangulation face of
              None \<Rightarrow>
                (case Next E ex of
                   Inl e \<Rightarrow> (s, Some e)
                 | Inr ex1 \<Rightarrow>
                     (case Next E ex1 of
                        Inl e \<Rightarrow> (s, Some e)
                      | Inr ex2 \<Rightarrow> face_loop E cb total_faces s ex2))
            | Some t \<Rightarrow>
                (case add_face E t (trsf face) s of
                   (s, Some e) \<Rightarrow> (s, Some e)
                 | (s, None) \<Rightarrow>
                     (let s = (if face_processed s mod update_every total_faces = 0
                                  \<or> face_processed s = total_faces
                               then emit cb (processing_pct (face_processed s) total_faces)
                                      ''processing''
                                      (processed_msg (face_processed s) total_faces) s
                               else s)
                      in case Next E ex of
                           Inl e \<Rightarrow> (s, Some e)
                         | Inr ex1 \<Rightarrow> face_loop E cb total_faces s ex1)))
      else (s, None))"
  by pat_completeness auto
termination
  by (relation "measure (\<lambda>(E, cb, n, s, ex). length ex)")
     (auto simp: More_def Next_def split: list.splits option.splits)

declare face_loop.simps [simp del]

subsection \<open>\<^verbatim>\<open>convert_step_to_glb\<close>\<close>

text \<open>
  What a call leaves behind: the pair it returns, the local state at the return (with
  the calls made to the callback), and whether the destination file was written.
\<close>

record 'k outcome =
  result :: "bool \<times> string"
  final :: "'k conv_state"
  glb_written :: bool

definition BRepMesh :: "('a, 'k) env \<Rightarrow> exn option" where
  \<comment> \<open>the call with four arguments, and on a \<^verbatim>\<open>TypeError\<close> the call with two\<close>
  "BRepMesh E =
     (case IncrementalMesh4 E of
        None \<Rightarrow> None
      | Some e \<Rightarrow> if exn_class e = TypeError then IncrementalMesh2 E else Some e)"

definition converted_msg :: "nat \<Rightarrow> 'k conv_state \<Rightarrow> string" where
  "converted_msg total_faces s =
     ''Converted: faces='' @ str_nat total_faces @ '', triangles='' @ str_nat (tri_count s)
       @ '', verts='' @ str_nat (length (vertices s))"

text \<open>
  The body of the \<^verbatim>\<open>try\<close> block ends with the state reached and either the exception
  that leaves the block or the returned pair with the flag of the written file.
\<close>

definition export_stage :: "('a, 'k) env \<Rightarrow> ProgressCB \<Rightarrow> nat \<Rightarrow> 'k conv_state \<Rightarrow> 'k conv_state \<times> (exn + (bool \<times> string) \<times> bool)" where
  "export_stage E cb total_faces s =
     (if vertices s = [] \<or> faces s = [] then
        (emit cb 0 ''error'' ''No mesh extracted from STEP file.'' s,
         Inr ((False, ''No mesh extracted from STEP file.''), False))
      else
        (let s = emit cb 90 ''exporting'' ''Preparing to export GLB'' s
         in case export_glb E (vertices s) (faces s) of
              Some e \<Rightarrow> (s, Inl e)
            | None \<Rightarrow>
                (emit cb 100 ''finished'' (converted_msg total_faces s) s,
                 Inr ((True, converted_msg total_faces s), True))))"

definition extract_stage :: "('a, 'k) env \<Rightarrow> ProgressCB \<Rightarrow> 'k conv_state \<Rightarrow> 'k conv_state \<times> (exn + (bool \<times> string) \<times> bool)" where
  "extract_stage E cb s =
     (case count_faces E (shape E) 0 of
        Inl e \<Rightarrow> (s, Inl e)
      | Inr total_faces \<Rightarrow>
          if total_faces = 0 then
            (emit cb 0 ''error'' ''No faces found in STEP'' s,
             Inr ((False, ''No faces found in STEP file.''), False))
          else
            (case face_loop E cb total_faces s (shape E) of
               (s, Some e) \<Rightarrow> (s, Inl e)
             | (s, None) \<Rightarrow> export_stage E cb total_faces s))"

definition try_block :: "('a, 'k) env \<Rightarrow> ProgressCB \<Rightarrow> 'k conv_state \<times> (exn + (bool \<times> string) \<times> bool)" where
  "try_block E cb =
     (let s = emit cb 1 ''starting'' ''Starting conversion'' init_state
      in case ReadFile E of
           Inl e \<Rightarrow> (s, Inl e)
         | Inr status \<Rightarrow>
             if status \<noteq> IFSelect_RetDone then
               (emit cb 0 ''error'' (''STEP read failed (status='' @ str_nat status @ '')'') s,
                Inr ((False, ''STEP read failed (status='' @ str_nat status @ '')''), False))
             else
               (let s = emit cb 5 ''loaded'' ''STEP file loaded'' s
                in case OneShape E of
                     Some e \<Rightarrow> (s, Inl e)
                   | None \<Rightarrow>
                       (let s = emit cb 8 ''meshing'' ''Starting tessellation'' s
                        in case BRepMesh E of
                             Some e \<Rightarrow> (s, Inl e)
                           | None \<Rightarrow>
                               extract_stage E cb
                                 (emit cb 12 ''meshed'' ''Tessellation complete'' s))))"

definition convert_step_to_glb :: "('a, 'k) env \<Rightarrow> ProgressCB \<Rightarrow> 'k outcome" where
  "convert_step_to_glb E cb =
     (if \<not> src_exists E then
        \<lparr>result = (False, ''Input file not found: '' @ src_str E),
         final = emit cb 0 ''error'' (''Input file not found: '' @ src_str E) init_state,
         glb_written = False\<rparr>
      else
        (case import_libs E of
           Some e \<Rightarrow>
             \<lparr>result = (False, ''Required libraries missing or failed to import: '' @ exn_str e
                          @ ''. Install pythonocc-core and trimesh.''),
              final = emit cb 0 ''error''
                        (''Required libraries missing or failed to import: '' @ exn_str e @ ''.'')
                        init_state,
              glb_written = False\<rparr>
         | None \<Rightarrow>
             (case try_block E cb of
                (s, Inr (r, w)) \<Rightarrow> \<lparr>result = r, final = s, glb_written = w\<rparr>
              | (s, Inl e) \<Rightarrow>
                  \<lparr>result = (False, ''Conversion exception: '' @ exn_str e @ [CHR 0x0A] @ exn_tb e),
                   final = emit cb 0 ''error'' (''Conversion exception: '' @ exn_str e) s,
                   glb_written = False\<rparr>)))"

section \<open>Sample inputs\<close>

text \<open>
  A unit square split into two triangles along a diagonal, a face that carries it, a
  face without triangulation, and an environment in which every external call succeeds.
\<close>

definition unit_square :: "int Poly_Triangulation" where
  "unit_square = \<lparr>nodes = [(0, 0, 0), (1, 0, 0), (1, 1, 0), (0, 1, 0)],
                   triangles = [(1, 2, 3), (1, 3, 4)]\<rparr>"

definition square_face :: "int face" where
  "square_face = \<lparr>triangulation = Some unit_square, trsf = Inr id\<rparr>"

definition bare_face :: "int face" where
  "bare_face = \<lparr>triangulation = None, trsf = Inr id\<rparr>"

definition sample_env :: "int face list \<Rightarrow> (int, int) env" where
  "sample_env fs =
     \<lparr>src_exists = True, src_str = ''part.step'', import_libs = None,
      ReadFile = Inr IFSelect_RetDone, OneShape = None,
      IncrementalMesh4 = None, IncrementalMesh2 = None,
      shape = fs, Next_exhausted = None,
      OutOfRange = Exn OtherException ''Standard_OutOfRange'' [],
      rnd = id, export_glb = (\<lambda>vs ts. None)\<rparr>"

definition quiet_cb :: ProgressCB where
  \<comment> \<open>a callback that always returns\<close>
  "quiet_cb = Some (\<lambda>calls ev. Returned)"

section \<open>Notions used in the properties\<close>

text \<open>
  The world-space point that both the node loop and the triangle loop compute for a
  node: the transformed point, or the point itself when the transformation raises.
\<close>

definition to_world :: "exn + ('a point \<Rightarrow> 'a point) \<Rightarrow> 'a point \<Rightarrow> 'a point" where
  "to_world tr p = (case Transformed tr p of Inl e \<Rightarrow> p | Inr q \<Rightarrow> q)"

text \<open>Every entry of the vertex table points at a vertex, and that vertex is the entry's key.\<close>

definition table_sound :: "'k conv_state \<Rightarrow> bool" where
  "table_sound s =
     (\<forall>k i. vertex_map s k = Some i \<longrightarrow> i < length (vertices s) \<and> vertices s ! i = k)"

text \<open>The table is exactly the inverse of the vertex list: no vertex is left without its entry.\<close>

definition table_exact :: "'k conv_state \<Rightarrow> bool" where
  "table_exact s =
     (\<forall>k i. (vertex_map s k = Some i) = (i < length (vertices s) \<and> vertices s ! i = k))"

definition indices_valid :: "'k conv_state \<Rightarrow> bool" where
  "indices_valid s =
     list_all (\<lambda>(a, b, c). a < length (vertices s) \<and> b < length (vertices s)
                            \<and> c < length (vertices s)) (faces s)"

text \<open>The percent values of a list of calls, absent ones ignored, and the calls of one state.\<close>

definition percents :: "ProgressEvent list \<Rightarrow> int list" where
  "percents evs = List.map_filter percent evs"

definition with_state :: "string \<Rightarrow> ProgressEvent list \<Rightarrow> ProgressEvent list" where
  "with_state st evs = filter (\<lambda>ev. state ev = Some st) evs"

text \<open>The state without the record of the calls, and the state when the face walk starts.\<close>

definition strip_calls :: "'k conv_state \<Rightarrow> 'k conv_state" where
  "strip_calls s = s\<lparr>calls := []\<rparr>"

definition meshed_state :: "ProgressCB \<Rightarrow> 'k conv_state" where
  "meshed_state cb =
     emit cb 12 ''meshed'' ''Tessellation complete''
       (emit cb 8 ''meshing'' ''Starting tessellation''
          (emit cb 5 ''loaded'' ''STEP file loaded''
             (emit cb 1 ''starting'' ''Starting conversion'' init_state)))"

text \<open>The processing update emitted when \<open>k\<close> of \<open>n\<close> faces are processed.\<close>

definition processing_event :: "nat \<Rightarrow> nat \<Rightarrow> ProgressEvent" where
  "processing_event n k = progress_event (processing_pct k n) ''processing'' (processed_msg k n)"

text \<open>
  A list of calls before any error checkpoint: the percent values do not decrease, none
  exceeds 90, and no call has the state \<open>error\<close>.
\<close>

definition orderly :: "ProgressEvent list \<Rightarrow> bool" where
  "orderly evs =
     (sorted (percents evs) \<and> list_all (\<lambda>p. p \<le> 90) (percents evs)
      \<and> with_state ''error'' evs = [])"

section \<open>Facts about the double-precision arithmetic\<close>

text \<open>
  Rounding to the nearest double is monotone and leaves \<open>1\<close> and \<open>78\<close> unchanged, so
  the percentage of a processing update grows with the number of processed faces and
  stays between 12 and 90.
\<close>

lemma rne_of_int: "rne (of_int n) = n"
  by (simp add: rne_def)

lemma rne_bounds: "\<lfloor>x\<rfloor> \<le> rne x \<and> rne x \<le> \<lfloor>x\<rfloor> + 1"
  by (simp add: rne_def Let_def)

lemma rne_mono: "x \<le> y \<Longrightarrow> rne x \<le> rne y"
proof -
  assume xy: "x \<le> y"
  have fl: "\<lfloor>x\<rfloor> \<le> \<lfloor>y\<rfloor>" using xy by (rule floor_mono)
  show ?thesis
  proof (cases "\<lfloor>x\<rfloor> = \<lfloor>y\<rfloor>")
    case True
    then have "x - of_int \<lfloor>x\<rfloor> \<le> y - of_int \<lfloor>y\<rfloor>" using xy by simp
    then show ?thesis using True by (auto simp: rne_def Let_def)
  next
    case False
    then have "\<lfloor>x\<rfloor> + 1 \<le> \<lfloor>y\<rfloor>" using fl by simp
    then show ?thesis using rne_bounds [of x] rne_bounds [of y] by linarith
  qed
qed

lemma expo_bounds:
  assumes "0 < x"
  shows "2 powi expo x \<le> x \<and> x < 2 powi (expo x + 1)"
proof -
  obtain p q where pq: "quotient_of x = (p, q)" by (cases "quotient_of x")
  have q: "0 < q" using pq by (rule quotient_of_denom_pos)
  have x: "x = of_int p / of_int q" using pq by (rule quotient_of_div)
  have p: "0 < p" using assms q x by (simp add: zero_less_divide_iff)
  define a where "a = floorlog 2 (nat p)"
  define b where "b = floorlog 2 (nat q)"
  have pa: "2 ^ (a - 1) \<le> nat p" "nat p < 2 ^ a"
    using floorlog_bounds [of "nat p" 2] p by (simp_all add: a_def)
  have qb: "2 ^ (b - 1) \<le> nat q" "nat q < 2 ^ b"
    using floorlog_bounds [of "nat q" 2] q by (simp_all add: b_def)
  have a1: "1 \<le> a" using p by (simp add: a_def floorlog_def)
  have b1: "1 \<le> b" using q by (simp add: b_def floorlog_def)
  have xr: "x = of_nat (nat p) / of_nat (nat q)" using x p q by simp
  have P1: "(2::rat) ^ (a - 1) \<le> of_nat (nat p)" using pa(1) by (metis of_nat_le_iff of_nat_numeral of_nat_power)
  have P2: "of_nat (nat p) < (2::rat) ^ a" using pa(2) by (metis of_nat_less_iff of_nat_numeral of_nat_power)
  have Q1: "(2::rat) ^ (b - 1) \<le> of_nat (nat q)" using qb(1) by (metis of_nat_le_iff of_nat_numeral of_nat_power)
  have Q2: "of_nat (nat q) < (2::rat) ^ b" using qb(2) by (metis of_nat_less_iff of_nat_numeral of_nat_power)
  have Qpos: "(0::rat) < of_nat (nat q)" using q by simp
  have up: "x < 2 powi (int a - int b + 1)"
  proof -
    have "x < 2 ^ a / of_nat (nat q)" unfolding xr using P2 Qpos by (simp add: divide_strict_right_mono)
    also have "\<dots> \<le> 2 ^ a / 2 ^ (b - 1)" using Q1 by (simp add: frac_le)
    also have "\<dots> = 2 powi (int a - int (b - 1))" by (simp add: power_int_diff)
    also have "int a - int (b - 1) = int a - int b + 1" using b1 by simp
    finally show ?thesis .
  qed
  have lo: "2 powi (int a - int b - 1) < x"
  proof -
    have eq: "int a - int b - 1 = int (a - 1) - int b" using a1 by simp
    have "2 powi (int a - int b - 1) = (2::rat) powi (int (a - 1) - int b)" by (simp only: eq)
    also have "\<dots> = 2 ^ (a - 1) / 2 ^ b" by (simp add: power_int_diff)
    also have "\<dots> < 2 ^ (a - 1) / of_nat (nat q)" using Q2 Qpos by (simp add: frac_less2)
    also have "\<dots> \<le> x" unfolding xr using P1 Qpos by (simp add: divide_right_mono)
    finally show ?thesis .
  qed
  have e: "expo x = (if 2 powi (int a - int b) \<le> x then int a - int b else int a - int b - 1)"
    by (simp add: expo_def pq a_def b_def Let_def)
  show ?thesis
  proof (cases "2 powi (int a - int b) \<le> x")
    case True
    then show ?thesis using e up by simp
  next
    case False
    then show ?thesis using e lo by simp
  qed
qed

lemma expo_unique:
  assumes "0 < x" "2 powi e \<le> x" "x < 2 powi (e + 1)"
  shows "expo x = e"
proof (rule ccontr)
  assume ne: "expo x \<noteq> e"
  have b: "2 powi expo x \<le> x" "x < 2 powi (expo x + 1)" using expo_bounds [OF assms(1)] by simp_all
  show False
  proof (cases "expo x < e")
    case True
    then have "(2::rat) powi (expo x + 1) \<le> 2 powi e" by (intro power_int_increasing) simp_all
    then show False using b(2) assms(2) by linarith
  next
    case False
    then have "e + 1 \<le> expo x" using ne by simp
    then have "(2::rat) powi (e + 1) \<le> 2 powi expo x" by (intro power_int_increasing) simp_all
    then show False using b(1) assms(3) by linarith
  qed
qed

lemma expo_mono:
  assumes "0 < x" "x \<le> y"
  shows "expo x \<le> expo y"
proof (rule ccontr)
  assume "\<not> expo x \<le> expo y"
  then have "expo y + 1 \<le> expo x" by simp
  then have "(2::rat) powi (expo y + 1) \<le> 2 powi expo x" by (intro power_int_increasing) simp_all
  moreover have "y < 2 powi (expo y + 1)" using expo_bounds [of y] assms by simp
  moreover have "2 powi expo x \<le> x" using expo_bounds [of x] assms by simp
  ultimately show False using assms(2) by linarith
qed


lemma round53_pos:
  assumes "0 < x"
  shows "round53 x = of_int (rne (x / 2 powi (expo x - 52))) * 2 powi (expo x - 52)"
  using assms by (simp add: round53_def Let_def)

lemma round53_range:
  assumes "0 < x"
  shows "2 powi expo x \<le> round53 x \<and> round53 x \<le> 2 powi (expo x + 1)"
proof -
  define u where "u = (2::rat) powi (expo x - 52)"
  have u: "0 < u" by (simp add: u_def)
  have b: "2 powi expo x \<le> x" "x < 2 powi (expo x + 1)" using expo_bounds [OF assms] by simp_all
  have "expo x = 52 + (expo x - 52)" by simp
  then have "(2::rat) powi expo x = 2 powi 52 * 2 powi (expo x - 52)"
    by (metis power_int_add zero_neq_numeral)
  then have e1: "(2::rat) powi expo x = 2 ^ 52 * u" by (simp add: u_def)
  have "expo x + 1 = 53 + (expo x - 52)" by simp
  then have "(2::rat) powi (expo x + 1) = 2 powi 53 * 2 powi (expo x - 52)"
    by (metis power_int_add zero_neq_numeral)
  then have e2: "(2::rat) powi (expo x + 1) = 2 ^ 53 * u" by (simp add: u_def)
  have lo: "of_int (2 ^ 52) \<le> x / u" using b(1) u by (simp add: e1 pos_le_divide_eq)
  have hi: "x / u \<le> of_int (2 ^ 53)" using b(2) u by (simp add: e2 pos_divide_le_eq)
  have "rne (of_int (2 ^ 52)) \<le> rne (x / u)" using lo by (rule rne_mono)
  then have r1: "2 ^ 52 \<le> rne (x / u)" by (simp only: rne_of_int)
  have "rne (x / u) \<le> rne (of_int (2 ^ 53))" using hi by (rule rne_mono)
  then have r2: "rne (x / u) \<le> 2 ^ 53" by (simp only: rne_of_int)
  have r1': "(2::rat) ^ 52 \<le> of_int (rne (x / u))" using r1 by (metis of_int_le_iff of_int_numeral of_int_power)
  have r2': "of_int (rne (x / u)) \<le> (2::rat) ^ 53" using r2 by (metis of_int_le_iff of_int_numeral of_int_power)
  have rd: "round53 x = of_int (rne (x / u)) * u" using assms by (simp add: round53_pos u_def)
  show ?thesis unfolding rd e1 e2 using r1' r2' u by (simp add: mult_right_mono)
qed

lemma round53_nonneg: "0 \<le> x \<Longrightarrow> 0 \<le> round53 x"
proof (cases "x = 0")
  case True
  then show ?thesis by (simp add: round53_def)
next
  case False
  assume "0 \<le> x"
  then have "0 < x" using False by simp
  then have "2 powi expo x \<le> round53 x" using round53_range by simp
  moreover have "(0::rat) < 2 powi expo x" by simp
  ultimately show ?thesis by linarith
qed

lemma round53_mono:
  assumes "0 \<le> x" "x \<le> y"
  shows "round53 x \<le> round53 y"
proof (cases "x = 0")
  case True
  then show ?thesis using assms round53_nonneg [of y] by (simp add: round53_def)
next
  case False
  then have x: "0 < x" using assms by simp
  then have y: "0 < y" using assms by simp
  have le: "expo x \<le> expo y" using x assms(2) by (rule expo_mono)
  show ?thesis
  proof (cases "expo x = expo y")
    case True
    define u where "u = (2::rat) powi (expo x - 52)"
    have u: "0 < u" by (simp add: u_def)
    have "x / u \<le> y / u" using assms(2) u by (simp add: divide_right_mono)
    then have "rne (x / u) \<le> rne (y / u)" by (rule rne_mono)
    then have "(of_int (rne (x / u)) :: rat) * u \<le> of_int (rne (y / u)) * u"
      using u by (simp add: mult_right_mono)
    then show ?thesis using x y True by (simp add: round53_pos u_def)
  next
    case False
    then have "expo x + 1 \<le> expo y" using le by simp
    then have "(2::rat) powi (expo x + 1) \<le> 2 powi expo y" by (intro power_int_increasing) simp_all
    then show ?thesis using round53_range [OF x] round53_range [OF y] by linarith
  qed
qed

lemma round53_eval:
  assumes "0 < x" "2 powi e \<le> x" "x < 2 powi (e + 1)" "rne (x / 2 powi (e - 52)) = m"
  shows "round53 x = of_int m * 2 powi (e - 52)"
proof -
  have "expo x = e" using assms(1-3) by (rule expo_unique)
  then show ?thesis using assms(1,4) by (simp add: round53_pos)
qed

lemma round53_1: "round53 1 = 1"
  using round53_eval [of 1 0 "2 ^ 52"] by (simp add: rne_def)

lemma round53_78: "round53 78 = 78"
  using round53_eval [of 78 6 "78 * 2 ^ 46"] by (simp add: rne_def)

lemma py_truediv_mono: "a \<le> b \<Longrightarrow> py_truediv a n \<le> py_truediv b n"
  unfolding py_truediv_def by (intro round53_mono) (simp_all add: divide_right_mono)

lemma py_truediv_range: "a \<le> n \<Longrightarrow> 0 \<le> py_truediv a n \<and> py_truediv a n \<le> 1"
proof -
  assume an: "a \<le> n"
  have "(of_nat a :: rat) / of_nat n \<le> 1" using an by (cases "n = 0") (simp_all add: divide_le_eq_1)
  then have "round53 (of_nat a / of_nat n) \<le> round53 1" by (intro round53_mono) simp_all
  then show ?thesis unfolding py_truediv_def by (simp add: round53_1 round53_nonneg)
qed

lemma py_truediv_self: "0 < n \<Longrightarrow> py_truediv n n = 1"
  by (simp add: py_truediv_def round53_1)

lemma py_int_mono: "x \<le> y \<Longrightarrow> py_int x \<le> py_int y"
proof -
  assume xy: "x \<le> y"
  have f: "\<lfloor>x\<rfloor> \<le> \<lfloor>y\<rfloor>" using xy by (rule floor_mono)
  have c: "\<lceil>x\<rceil> \<le> \<lceil>y\<rceil>" using xy by (rule ceiling_mono)
  show ?thesis
  proof (cases "0 \<le> x")
    case True
    then show ?thesis using xy f by (simp add: py_int_def)
  next
    case False
    then have cx: "\<lceil>x\<rceil> \<le> 0" by (simp add: ceiling_le_zero)
    show ?thesis
    proof (cases "0 \<le> y")
      case True
      then have "0 \<le> \<lfloor>y\<rfloor>" by simp
      then have "\<lceil>x\<rceil> \<le> \<lfloor>y\<rfloor>" using cx by linarith
      then show ?thesis using False True by (simp add: py_int_def)
    next
      case ny: False
      then show ?thesis using False c by (simp add: py_int_def)
    qed
  qed
qed

lemma processing_pct_mono:
  "a \<le> b \<Longrightarrow> processing_pct a n \<le> processing_pct b n"
proof -
  assume ab: "a \<le> b"
  have 0: "0 \<le> py_truediv a n" unfolding py_truediv_def by (intro round53_nonneg) simp
  have "py_truediv a n * 78 \<le> py_truediv b n * 78" using py_truediv_mono [OF ab, of n] by simp
  then have "py_float_mul (py_truediv a n) 78 \<le> py_float_mul (py_truediv b n) 78"
    unfolding py_float_mul_def using 0 by (intro round53_mono) simp_all
  then show ?thesis unfolding processing_pct_def using py_int_mono by simp
qed

lemma processing_pct_total: "0 < n \<Longrightarrow> processing_pct n n = 90"
  by (simp add: processing_pct_def py_truediv_self py_float_mul_def round53_78 py_int_def)

lemma processing_pct_range:
  assumes "a \<le> n"
  shows "12 \<le> processing_pct a n \<and> processing_pct a n \<le> 90"
proof -
  have r: "0 \<le> py_truediv a n" "py_truediv a n \<le> 1" using py_truediv_range [OF assms] by simp_all
  have lo: "0 \<le> py_float_mul (py_truediv a n) 78"
    unfolding py_float_mul_def using r(1) by (intro round53_nonneg) simp
  have "py_float_mul (py_truediv a n) 78 \<le> round53 78"
    unfolding py_float_mul_def using r by (intro round53_mono) simp_all
  then have hi: "py_float_mul (py_truediv a n) 78 \<le> 78" by (simp add: round53_78)
  have "py_int (py_float_mul (py_truediv a n) 78) \<le> py_int 78" using hi by (rule py_int_mono)
  moreover have "py_int 0 \<le> py_int (py_float_mul (py_truediv a n) 78)" using lo by (rule py_int_mono)
  ultimately show ?thesis by (simp add: processing_pct_def py_int_def)
qed

lemma update_every_pos: "0 < update_every n"
  by (simp add: update_every_def)


lemma round53_pos_pos: "0 < x \<Longrightarrow> 0 < round53 x"
proof -
  assume "0 < x"
  then have "2 powi expo x \<le> round53 x" using round53_range by simp
  moreover have "(0::rat) < 2 powi expo x" by simp
  ultimately show ?thesis by linarith
qed

lemma update_every_small:
  assumes "0 < n" "n \<le> 100"
  shows "update_every n = 1"
proof -
  have "(0::rat) < of_nat n / of_nat 100" using assms by simp
  then have lo: "0 < py_truediv n 100" unfolding py_truediv_def by (rule round53_pos_pos)
  have "(of_nat n :: rat) / of_nat 100 \<le> 1" using assms by simp
  then have "round53 (of_nat n / of_nat 100) \<le> round53 1" by (intro round53_mono) simp_all
  then have hi: "py_truediv n 100 \<le> 1" by (simp add: py_truediv_def round53_1)
  have "\<lceil>py_truediv n 100\<rceil> = 1" using lo hi by (simp add: ceiling_eq_iff)
  then show ?thesis by (simp add: update_every_def math_ceil_def)
qed


lemma rne_frac:
  assumes "0 < q"
  shows "rne (of_int p / of_int q) =
           (if 2 * (p mod q) < q then p div q
            else if q < 2 * (p mod q) then p div q + 1
            else if even (p div q) then p div q else p div q + 1)"
proof -
  have fl: "\<lfloor>(of_int p :: rat) / of_int q\<rfloor> = p div q" by (simp add: floor_divide_of_int_eq)
  have qr: "(0::rat) < of_int q" using assms by simp
  have "(of_int p :: rat) = of_int (p div q) * of_int q + of_int (p mod q)"
    by (metis div_mult_mod_eq of_int_add of_int_mult)
  then have d: "(of_int p :: rat) / of_int q - of_int (p div q) = of_int (p mod q) / of_int q"
    using qr by (simp add: field_simps)
  have lt: "(of_int (p mod q) / of_int q < (1::rat) / 2) = (2 * (p mod q) < q)"
  proof -
    have "(of_int (p mod q) / of_int q < (1::rat) / 2) = ((of_int (2 * (p mod q)) :: rat) < of_int q)"
      using qr by (simp add: field_simps)
    then show ?thesis by (simp only: of_int_less_iff)
  qed
  have gt: "((1::rat) / 2 < of_int (p mod q) / of_int q) = (q < 2 * (p mod q))"
  proof -
    have "((1::rat) / 2 < of_int (p mod q) / of_int q) = ((of_int q :: rat) < of_int (2 * (p mod q)))"
      using qr by (simp add: field_simps)
    then show ?thesis by (simp only: of_int_less_iff)
  qed
  show ?thesis unfolding rne_def Let_def fl d lt gt ..
qed



lemma round53_15_26: "round53 (15 / 26) = 5196461108504418 / 9007199254740992"
proof -
  have a: "(0::rat) < 15 / 26" by simp
  have b: "2 powi (- 1) \<le> (15::rat) / 26" by simp
  have c: "(15::rat) / 26 < 2 powi (- 1 + 1)" by simp
  have "((15::rat) / 26) / 2 powi (- 1 - 52) = of_int 67553994410557440 / of_int 13" by simp
  then have d: "rne ((15 / 26) / 2 powi (- 1 - 52)) = 5196461108504418"
    by (simp only: rne_frac) simp
  show ?thesis using round53_eval [OF a b c d] by simp
qed

lemma processing_pct_15_26: "processing_pct 15 26 = 56"
proof -
  have a: "(0::rat) < 5196461108504418 / 9007199254740992 * 78" by simp
  have b: "2 powi 5 \<le> (5196461108504418::rat) / 9007199254740992 * 78" by simp
  have c: "(5196461108504418::rat) / 9007199254740992 * 78 < 2 powi (5 + 1)" by simp
  have "((5196461108504418::rat) / 9007199254740992 * 78) / 2 powi (5 - 52)
          = of_int 101330991615836151 / of_int 16" by simp
  then have d: "rne ((5196461108504418 / 9007199254740992 * 78) / 2 powi (5 - 52)) = 6333186975989759"
    by (simp only: rne_frac) simp
  have r: "round53 (5196461108504418 / 9007199254740992 * 78) = 6333186975989759 / 140737488355328"
    using round53_eval [OF a b c d] by simp
  have q: "py_truediv 15 26 = 5196461108504418 / 9007199254740992"
    by (simp add: py_truediv_def round53_15_26)
  have m: "py_float_mul (py_truediv 15 26) 78 = 6333186975989759 / 140737488355328"
    by (simp only: py_float_mul_def q r)
  have i: "py_int (6333186975989759 / 140737488355328) = 44"
    by (simp add: py_int_def floor_eq_iff)
  have "(90::rat) - 12 = 78" by simp
  then show ?thesis by (simp only: processing_pct_def m i)
qed

section \<open>The explorer and the two walks\<close>

lemma Next_Cons: "Next E (f # fs) = Inr fs"
  by (simp add: Next_def)

text \<open>The counting walk counts every face of the shape and never raises.\<close>

lemma count_faces_eq: "count_faces E ex n = Inr (n + length ex)"
proof (induction ex arbitrary: n)
  case Nil
  show ?case by (subst count_faces.simps) (simp add: More_def)
next
  case (Cons f fs)
  show ?case by (subst count_faces.simps) (simp add: More_def Next_Cons Cons.IH)
qed

lemma face_loop_Nil: "face_loop E cb n s [] = (s, None)"
  by (subst face_loop.simps) (simp add: More_def)

lemma face_loop_Cons:
  "face_loop E cb n s (f # fs) =
     (let s = s\<lparr>face_processed := face_processed s + 1\<rparr>
      in case triangulation f of
           None \<Rightarrow>
             (case Next E fs of
                Inl e \<Rightarrow> (s, Some e)
              | Inr ex2 \<Rightarrow> face_loop E cb n s ex2)
         | Some t \<Rightarrow>
             (case add_face E t (trsf f) s of
                (s, Some e) \<Rightarrow> (s, Some e)
              | (s, None) \<Rightarrow>
                  face_loop E cb n
                    (if face_processed s mod update_every n = 0 \<or> face_processed s = n
                     then emit cb (processing_pct (face_processed s) n) ''processing''
                            (processed_msg (face_processed s) n) s
                     else s) fs))"
  by (subst face_loop.simps)
     (simp add: More_def Current_def Next_Cons Let_def split: option.splits sum.splits prod.splits)

text \<open>
  After a face without triangulation the explorer is advanced twice, so the face that
  follows it is never looked at, whatever it carries.
\<close>

lemma face_loop_skips:
  "triangulation f = None \<Longrightarrow>
   face_loop E cb n s (f # g # rest) =
   face_loop E cb n (s\<lparr>face_processed := face_processed s + 1\<rparr>) rest"
  by (simp add: face_loop_Cons Next_Cons)

section \<open>Claim C1: faces visited against faces counted\<close>

text \<open>
  C1 states that the processing walk visits as many faces as the counting walk counted,
  and that a face without triangulation is skipped without any other face being skipped
  because of it. The code does not do this. On the shape made of a face without
  triangulation followed by the unit-square face, the counting walk counts two faces, the
  processing walk ends with one face processed, the square contributes no vertex, and
  the conversion fails although the second face carries a mesh.
\<close>

theorem C1_face_after_bare_face_is_skipped:
  "count_faces (sample_env [bare_face, square_face]) (shape (sample_env [bare_face, square_face])) 0 = Inr 2
   \<and> face_processed (final (convert_step_to_glb (sample_env [bare_face, square_face]) cb)) = 1
   \<and> vertices (final (convert_step_to_glb (sample_env [bare_face, square_face]) cb)) = []
   \<and> result (convert_step_to_glb (sample_env [bare_face, square_face]) cb)
       = (False, ''No mesh extracted from STEP file.'')"
  by (simp add: convert_step_to_glb_def try_block_def extract_stage_def export_stage_def
      count_faces_eq sample_env_def bare_face_def square_face_def face_loop_Cons face_loop_Nil
      Next_def emit_def init_state_def BRepMesh_def IFSelect_RetDone_def)

section \<open>Invariants of the mesh under construction\<close>

lemma face_loop_invariant:
  assumes "P s"
    and inc: "\<And>s. P s \<Longrightarrow> P (s\<lparr>face_processed := face_processed s + 1\<rparr>)"
    and face: "\<And>s t tr. P s \<Longrightarrow> P (fst (add_face E t tr s))"
    and em: "\<And>s p st m. P s \<Longrightarrow> P (emit cb p st m s)"
  shows "P (fst (face_loop E cb n s ex))"
  using assms(1)
proof (induction ex arbitrary: s rule: length_induct)
  case (1 ex)
  show ?case
  proof (cases ex)
    case Nil
    then show ?thesis using 1 by (simp add: face_loop_Nil)
  next
    case (Cons f fs)
    let ?s1 = "s\<lparr>face_processed := face_processed s + 1\<rparr>"
    have P1: "P ?s1" using 1(2) by (rule inc)
    show ?thesis
    proof (cases "triangulation f")
      case None
      show ?thesis
      proof (cases "Next E fs")
        case (Inl e)
        then show ?thesis using Cons None P1 by (simp add: face_loop_Cons)
      next
        case (Inr ex2)
        then have "length ex2 < length ex" using Cons by (auto simp: Next_def split: list.splits option.splits)
        then have "P (fst (face_loop E cb n ?s1 ex2))" using 1(1) P1 by blast
        then show ?thesis using Cons None Inr by (simp add: face_loop_Cons)
      qed
    next
      case (Some t)
      obtain s2 r where af: "add_face E t (trsf f) ?s1 = (s2, r)" by (cases "add_face E t (trsf f) ?s1")
      have P2: "P s2" using face [OF P1, of t "trsf f"] af by simp
      show ?thesis
      proof (cases r)
        case (Some e)
        then show ?thesis using Cons \<open>triangulation f = Some t\<close> af P2 by (simp add: face_loop_Cons)
      next
        case None
        let ?s3 = "if face_processed s2 mod update_every n = 0 \<or> face_processed s2 = n
                   then emit cb (processing_pct (face_processed s2) n) ''processing''
                          (processed_msg (face_processed s2) n) s2
                   else s2"
        have P3: "P ?s3" using P2 em by simp
        have "length fs < length ex" using Cons by simp
        then have "P (fst (face_loop E cb n ?s3 fs))" using 1(1) P3 by blast
        then show ?thesis using Cons \<open>triangulation f = Some t\<close> af None by (simp add: face_loop_Cons)
      qed
    qed
  qed
qed

lemma append_vertex_fields:
  "vertices (append_vertex s c) = vertices s @ [c]"
  "vertex_map (append_vertex s c) = (vertex_map s)(c \<mapsto> length (vertices s))"
  "faces (append_vertex s c) = faces s"
  "face_processed (append_vertex s c) = face_processed s"
  "tri_count (append_vertex s c) = tri_count s"
  "calls (append_vertex s c) = calls s"
  by (simp_all add: append_vertex_def)

lemma append_vertex_sound:
  assumes "table_sound s"
  shows "table_sound (append_vertex s c)"
  unfolding table_sound_def
proof (intro allI impI)
  fix k i
  assume a: "vertex_map (append_vertex s c) k = Some i"
  show "i < length (vertices (append_vertex s c)) \<and> vertices (append_vertex s c) ! i = k"
  proof (cases "k = c")
    case True
    then have "i = length (vertices s)" using a by (simp add: append_vertex_fields)
    then show ?thesis using True by (simp add: append_vertex_fields)
  next
    case False
    then have "vertex_map s k = Some i" using a by (simp add: append_vertex_fields)
    then have "i < length (vertices s) \<and> vertices s ! i = k"
      using assms unfolding table_sound_def by blast
    then show ?thesis by (simp add: append_vertex_fields nth_append)
  qed
qed

lemma append_vertex_valid: "indices_valid s \<Longrightarrow> indices_valid (append_vertex s c)"
  by (auto simp: indices_valid_def append_vertex_fields list_all_iff)

lemma insert_node_sound: "table_sound s \<Longrightarrow> table_sound (insert_node E tr s p)"
  by (simp add: insert_node_def Let_def append_vertex_sound)

lemma insert_node_valid: "indices_valid s \<Longrightarrow> indices_valid (insert_node E tr s p)"
  by (simp add: insert_node_def Let_def append_vertex_valid)

lemma insert_nodes_sound: "table_sound s \<Longrightarrow> table_sound (insert_nodes E tr s ps)"
  unfolding insert_nodes_def by (induction ps arbitrary: s) (simp_all add: insert_node_sound)

lemma insert_nodes_valid: "indices_valid s \<Longrightarrow> indices_valid (insert_nodes E tr s ps)"
  unfolding insert_nodes_def by (induction ps arbitrary: s) (simp_all add: insert_node_valid)


lemma insert_missing_cases:
  assumes "insert_missing s c i = (s', j)"
  shows "(i = None \<and> s' = append_vertex s c \<and> j = length (vertices s)) \<or> (i = Some j \<and> s' = s)"
  using assms by (cases i) (auto simp: insert_missing_def)

lemma insert_missing_sound:
  assumes "insert_missing s c i = (s', j)" "table_sound s"
  shows "table_sound s'"
  using insert_missing_cases [OF assms(1)] assms(2) by (auto simp: append_vertex_sound)

lemma insert_missing_valid:
  assumes "insert_missing s c i = (s', j)" "indices_valid s"
  shows "indices_valid s'"
  using insert_missing_cases [OF assms(1)] assms(2) by (auto simp: append_vertex_valid)

lemma insert_missing_length:
  assumes "insert_missing s c i = (s', j)"
  shows "length (vertices s) \<le> length (vertices s')"
  using insert_missing_cases [OF assms] by (auto simp: append_vertex_fields)

lemma insert_missing_faces:
  assumes "insert_missing s c i = (s', j)"
  shows "faces s' = faces s"
  using insert_missing_cases [OF assms] by (auto simp: append_vertex_fields)

lemma insert_missing_index:
  assumes "insert_missing s c i = (s', j)" "\<And>j0. i = Some j0 \<Longrightarrow> j0 < n" "n \<le> length (vertices s)"
  shows "j < length (vertices s')"
  using insert_missing_cases [OF assms(1)] assms(2,3) by (auto simp: append_vertex_fields)

lemma append_triangle_unfold:
  assumes "insert_missing s ca (vertex_map s ca) = (s1, ia)"
    and "insert_missing s1 cb (vertex_map s cb) = (s2, ib)"
    and "insert_missing s2 cc (vertex_map s cc) = (s3, ic)"
  shows "append_triangle s ca cb cc
           = s3\<lparr>faces := faces s3 @ [(ia, ib, ic)], tri_count := tri_count s3 + 1\<rparr>"
  using assms by (simp add: append_triangle_def Let_def)

lemma append_triangle_inv:
  assumes "table_sound s" "indices_valid s"
  shows "table_sound (append_triangle s ca cb cc) \<and> indices_valid (append_triangle s ca cb cc)"
proof -
  obtain s1 ia where 1: "insert_missing s ca (vertex_map s ca) = (s1, ia)"
    by (cases "insert_missing s ca (vertex_map s ca)")
  obtain s2 ib where 2: "insert_missing s1 cb (vertex_map s cb) = (s2, ib)"
    by (cases "insert_missing s1 cb (vertex_map s cb)")
  obtain s3 ic where 3: "insert_missing s2 cc (vertex_map s cc) = (s3, ic)"
    by (cases "insert_missing s2 cc (vertex_map s cc)")
  have old: "\<And>k j0. vertex_map s k = Some j0 \<Longrightarrow> j0 < length (vertices s)"
    using assms(1) unfolding table_sound_def by blast
  have l1: "length (vertices s) \<le> length (vertices s1)" using 1 by (rule insert_missing_length)
  have l2: "length (vertices s1) \<le> length (vertices s2)" using 2 by (rule insert_missing_length)
  have l3: "length (vertices s2) \<le> length (vertices s3)" using 3 by (rule insert_missing_length)
  have a: "ia < length (vertices s1)"
    using 1 by (rule insert_missing_index [where n = "length (vertices s)"]) (auto dest: old)
  have b: "ib < length (vertices s2)"
    using 2 by (rule insert_missing_index [where n = "length (vertices s)"]) (auto dest: old simp: l1)
  have c: "ic < length (vertices s3)"
    using 3
  proof (rule insert_missing_index [where n = "length (vertices s)"])
    show "length (vertices s) \<le> length (vertices s2)" using l1 l2 by simp
  qed (auto dest: old)
  have t3: "table_sound s3"
    using assms(1) 1 2 3 by (blast intro: insert_missing_sound)
  have v3: "indices_valid s3"
    using assms(2) 1 2 3 by (blast intro: insert_missing_valid)
  have eq: "append_triangle s ca cb cc
              = s3\<lparr>faces := faces s3 @ [(ia, ib, ic)], tri_count := tri_count s3 + 1\<rparr>"
    using 1 2 3 by (rule append_triangle_unfold)
  have "table_sound (s3\<lparr>faces := faces s3 @ [(ia, ib, ic)], tri_count := tri_count s3 + 1\<rparr>)"
    using t3 by (simp add: table_sound_def)
  moreover have "indices_valid (s3\<lparr>faces := faces s3 @ [(ia, ib, ic)], tri_count := tri_count s3 + 1\<rparr>)"
    using v3 a b c l2 l3 by (simp add: indices_valid_def)
  ultimately show ?thesis by (simp only: eq)
qed

lemma add_triangle_inv:
  assumes "table_sound s" "indices_valid s"
  shows "table_sound (fst (add_triangle E t tr s tri)) \<and> indices_valid (fst (add_triangle E t tr s tri))"
  using assms append_triangle_inv [OF assms]
  by (auto simp: add_triangle_def Let_def split: prod.splits sum.splits)

lemma add_triangles_inv:
  assumes "table_sound s" "indices_valid s"
  shows "table_sound (fst (add_triangles E t tr s tris)) \<and> indices_valid (fst (add_triangles E t tr s tris))"
  using assms
proof (induction tris arbitrary: s)
  case Nil
  then show ?case by simp
next
  case (Cons tri rest)
  obtain s1 r where 1: "add_triangle E t tr s tri = (s1, r)" by (cases "add_triangle E t tr s tri")
  have inv1: "table_sound s1 \<and> indices_valid s1"
    using add_triangle_inv [OF Cons.prems, of E t tr tri] 1 by simp
  show ?case
  proof (cases r)
    case None
    then show ?thesis using 1 inv1 Cons.IH [of s1] by simp
  next
    case (Some e)
    then show ?thesis using 1 inv1 by simp
  qed
qed

lemma add_face_inv:
  assumes "table_sound s" "indices_valid s"
  shows "table_sound (fst (add_face E t tr s)) \<and> indices_valid (fst (add_face E t tr s))"
  unfolding add_face_def
  by (intro add_triangles_inv insert_nodes_sound insert_nodes_valid assms)

lemma emit_fields:
  "vertices (emit cb p st m s) = vertices s"
  "faces (emit cb p st m s) = faces s"
  "vertex_map (emit cb p st m s) = vertex_map s"
  "face_processed (emit cb p st m s) = face_processed s"
  "tri_count (emit cb p st m s) = tri_count s"
  by (simp_all add: emit_def)

lemma face_loop_inv:
  assumes "table_sound s \<and> indices_valid s"
  shows "table_sound (fst (face_loop E cb n s ex)) \<and> indices_valid (fst (face_loop E cb n s ex))"
proof -
  have inc: "table_sound (s'\<lparr>face_processed := face_processed s' + 1\<rparr>)
             \<and> indices_valid (s'\<lparr>face_processed := face_processed s' + 1\<rparr>)"
    if "table_sound s' \<and> indices_valid s'" for s' :: "'k conv_state"
    using that by (simp add: table_sound_def indices_valid_def)
  have em: "table_sound (emit cb p st m s') \<and> indices_valid (emit cb p st m s')"
    if "table_sound s' \<and> indices_valid s'" for s' :: "'k conv_state" and p st m
    using that by (simp add: table_sound_def indices_valid_def emit_fields)
  have face: "table_sound (fst (add_face E t tr s')) \<and> indices_valid (fst (add_face E t tr s'))"
    if "table_sound s' \<and> indices_valid s'" for s' t tr
    using that add_face_inv by blast
  show ?thesis
    by (rule face_loop_invariant [where P = "\<lambda>s. table_sound s \<and> indices_valid s", OF assms])
       (simp_all only: inc em face)
qed

lemma export_stage_invariant:
  assumes "P s" and em: "\<And>s p st m. P s \<Longrightarrow> P (emit cb p st m s)"
  shows "P (fst (export_stage E cb n s))"
  using assms(1) by (auto simp: export_stage_def Let_def intro!: em split: option.splits)

lemma extract_stage_invariant:
  assumes "P s" and em: "\<And>s p st m. P s \<Longrightarrow> P (emit cb p st m s)"
    and loop: "\<And>s n ex. P s \<Longrightarrow> P (fst (face_loop E cb n s ex))"
  shows "P (fst (extract_stage E cb s))"
proof -
  have "P (fst (export_stage E cb n s'))" if "P s'" for s' n
    using that em by (rule export_stage_invariant)
  moreover have "P (fst (face_loop E cb n s ex))" for n ex
    using assms(1) by (rule loop)
  ultimately show ?thesis
    using assms(1) em [OF assms(1)]
    by (auto simp: extract_stage_def count_faces_eq split: prod.splits option.splits)
       (metis fst_conv)+
qed

lemma try_block_invariant:
  assumes "P init_state" and em: "\<And>s p st m. P s \<Longrightarrow> P (emit cb p st m s)"
    and loop: "\<And>s n ex. P s \<Longrightarrow> P (fst (face_loop E cb n s ex))"
  shows "P (fst (try_block E cb))"
proof -
  have ex: "P (fst (extract_stage E cb s'))" if "P s'" for s'
    using that em loop by (rule extract_stage_invariant)
  have 1: "P (emit cb 1 ''starting'' ''Starting conversion'' init_state)"
    using assms(1) by (rule em)
  have 5: "P (emit cb 5 ''loaded'' ''STEP file loaded''
                (emit cb 1 ''starting'' ''Starting conversion'' init_state))"
    using 1 by (rule em)
  have 8: "P (emit cb 8 ''meshing'' ''Starting tessellation''
                (emit cb 5 ''loaded'' ''STEP file loaded''
                   (emit cb 1 ''starting'' ''Starting conversion'' init_state)))"
    using 5 by (rule em)
  have 12: "P (meshed_state cb)"
    unfolding meshed_state_def using 8 by (rule em)
  have "P (fst (extract_stage E cb (meshed_state cb)))" using 12 by (rule ex)
  then show ?thesis
    using 1 5 8
    by (auto simp: try_block_def Let_def meshed_state_def intro!: em split: sum.splits option.splits)
qed

lemma convert_invariant:
  assumes "P init_state" and em: "\<And>s p st m. P s \<Longrightarrow> P (emit cb p st m s)"
    and loop: "\<And>s n ex. P s \<Longrightarrow> P (fst (face_loop E cb n s ex))"
  shows "P (final (convert_step_to_glb E cb))"
proof -
  have "P (fst (try_block E cb))" using assms by (rule try_block_invariant)
  then show ?thesis
    using assms(1)
    by (auto simp: convert_step_to_glb_def intro!: em split: option.splits prod.splits sum.splits)
qed

lemma init_state_inv: "table_sound init_state \<and> indices_valid init_state"
  by (simp add: table_sound_def indices_valid_def init_state_def)

lemma emit_inv:
  "table_sound s \<and> indices_valid s \<Longrightarrow> table_sound (emit cb p st m s) \<and> indices_valid (emit cb p st m s)"
  by (simp add: table_sound_def indices_valid_def emit_fields)

lemma convert_inv:
  "table_sound (final (convert_step_to_glb E cb)) \<and> indices_valid (final (convert_step_to_glb E cb))"
  by (rule convert_invariant [where P = "\<lambda>s. table_sound s \<and> indices_valid s"])
     (simp_all only: init_state_inv emit_inv face_loop_inv)

section \<open>The sample inputs, evaluated\<close>

lemma square_nodes:
  assumes "vertices s = []" "vertex_map s = Map.empty"
  shows "insert_nodes (sample_env fs) (Inr id) s (nodes unit_square)
           = s\<lparr>vertex_map := [(0, 0, 0) \<mapsto> 0, (1, 0, 0) \<mapsto> 1, (1, 1, 0) \<mapsto> 2, (0, 1, 0) \<mapsto> 3],
                vertices := [(0, 0, 0), (1, 0, 0), (1, 1, 0), (0, 1, 0)]\<rparr>"
  using assms
  by (simp add: insert_nodes_def insert_node_def unit_square_def Transformed_def coord_of_def
      sample_env_def append_vertex_def Let_def eval_nat_numeral)

lemma square_triangles:
  assumes "vertices s = [(0, 0, 0), (1, 0, 0), (1, 1, 0), (0, 1, 0)]"
    and "vertex_map s = [(0, 0, 0) \<mapsto> 0, (1, 0, 0) \<mapsto> 1, (1, 1, 0) \<mapsto> 2, (0, 1, 0) \<mapsto> 3]"
  shows "add_triangles (sample_env fs) unit_square (Inr id) s (triangles unit_square)
           = (s\<lparr>faces := faces s @ [(0, 1, 2), (0, 2, 3)], tri_count := tri_count s + 2\<rparr>, None)"
  using assms
  by (simp add: add_triangle_def append_triangle_def insert_missing_def unit_square_def
      Node_def transform3_def Transformed_def coord_of_def sample_env_def Let_def)

lemma square_face_added:
  assumes "vertices s = []" "vertex_map s = Map.empty"
  shows "add_face (sample_env fs) unit_square (Inr id) s
           = (s\<lparr>vertex_map := [(0, 0, 0) \<mapsto> 0, (1, 0, 0) \<mapsto> 1, (1, 1, 0) \<mapsto> 2, (0, 1, 0) \<mapsto> 3],
                 vertices := [(0, 0, 0), (1, 0, 0), (1, 1, 0), (0, 1, 0)],
                 faces := faces s @ [(0, 1, 2), (0, 2, 3)], tri_count := tri_count s + 2\<rparr>, None)"
  unfolding add_face_def
  by (simp add: square_nodes [OF assms] square_triangles)

lemma sample_env_fields:
  "src_exists (sample_env fs)" "import_libs (sample_env fs) = None"
  "ReadFile (sample_env fs) = Inr IFSelect_RetDone" "OneShape (sample_env fs) = None"
  "BRepMesh (sample_env fs) = None" "shape (sample_env fs) = fs"
  "Next_exhausted (sample_env fs) = None" "export_glb (sample_env fs) vs ts = None"
  by (simp_all add: sample_env_def BRepMesh_def)

lemma safe_call_progress_Some: "safe_call_progress (Some f) cs ev = cs @ [ev]"
  by (simp add: safe_call_progress_def split: cb_outcome.splits)


lemma calls_emit: "calls (emit cb p st m s) = safe_call_progress cb (calls s) (progress_event p st m)"
  by (simp add: emit_def)

lemma meshed_state_fields:
  "vertices (meshed_state cb) = []" "faces (meshed_state cb) = []"
  "vertex_map (meshed_state cb) = Map.empty" "face_processed (meshed_state cb) = 0"
  "tri_count (meshed_state cb) = 0"
  by (simp_all add: meshed_state_def emit_fields init_state_def)

lemma calls_meshed_state:
  "calls (meshed_state (Some f)) =
     [progress_event 1 ''starting'' ''Starting conversion'',
      progress_event 5 ''loaded'' ''STEP file loaded'',
      progress_event 8 ''meshing'' ''Starting tessellation'',
      progress_event 12 ''meshed'' ''Tessellation complete'']"
  by (simp add: meshed_state_def calls_emit safe_call_progress_Some init_state_def)

lemma try_block_reaches_walk:
  assumes "ReadFile E = Inr IFSelect_RetDone" "OneShape E = None" "BRepMesh E = None"
  shows "try_block E cb = extract_stage E cb (meshed_state cb)"
  using assms by (simp add: try_block_def meshed_state_def Let_def)

lemma extract_stage_walk:
  assumes "shape E \<noteq> []"
  shows "extract_stage E cb s =
           (case face_loop E cb (length (shape E)) s (shape E) of
              (s', Some e) \<Rightarrow> (s', Inl e)
            | (s', None) \<Rightarrow> export_stage E cb (length (shape E)) s')"
  using assms by (simp add: extract_stage_def count_faces_eq)

lemma extract_stage_no_faces:
  assumes "shape E = []"
  shows "extract_stage E cb s =
           (emit cb 0 ''error'' ''No faces found in STEP'' s,
            Inr ((False, ''No faces found in STEP file.''), False))"
  using assms by (simp add: extract_stage_def count_faces_eq)

lemma convert_of_try_block:
  assumes "src_exists E" "import_libs E = None"
  shows "convert_step_to_glb E cb =
           (case try_block E cb of
              (s, Inr (r, w)) \<Rightarrow> \<lparr>result = r, final = s, glb_written = w\<rparr>
            | (s, Inl e) \<Rightarrow>
                \<lparr>result = (False, ''Conversion exception: '' @ exn_str e @ [CHR 0x0A] @ exn_tb e),
                 final = emit cb 0 ''error'' (''Conversion exception: '' @ exn_str e) s,
                 glb_written = False\<rparr>)"
  using assms by (simp add: convert_step_to_glb_def)

lemma update_every_1: "update_every (Suc 0) = 1"
  using update_every_small [of 1] by simp

lemma processing_pct_1_1: "processing_pct (Suc 0) (Suc 0) = 90"
  using processing_pct_total [of 1] by simp

lemma export_stage_sample:
  assumes "vertices s \<noteq> []" "faces s \<noteq> []"
  shows "export_stage (sample_env fs) cb n s =
           (emit cb 100 ''finished''
              (converted_msg n (emit cb 90 ''exporting'' ''Preparing to export GLB'' s))
              (emit cb 90 ''exporting'' ''Preparing to export GLB'' s),
            Inr ((True, converted_msg n (emit cb 90 ''exporting'' ''Preparing to export GLB'' s)),
                 True))"
  using assms by (simp add: export_stage_def Let_def emit_fields sample_env_fields)

lemma square_walk:
  "face_loop (sample_env fs) cb (Suc 0) (meshed_state cb) [square_face]
     = (emit cb 90 ''processing'' (processed_msg (Suc 0) (Suc 0))
          ((meshed_state cb)
             \<lparr>face_processed := Suc 0,
              vertex_map := [(0, 0, 0) \<mapsto> 0, (1, 0, 0) \<mapsto> 1, (1, 1, 0) \<mapsto> 2, (0, 1, 0) \<mapsto> 3],
              vertices := [(0, 0, 0), (1, 0, 0), (1, 1, 0), (0, 1, 0)],
              faces := [(0, 1, 2), (0, 2, 3)], tri_count := 2\<rparr>), None)"
  by (simp add: face_loop_Cons face_loop_Nil square_face_def square_face_added meshed_state_fields
      update_every_1 processing_pct_1_1 numeral_2_eq_2)

lemma square_run_mesh:
  "fst (result (convert_step_to_glb (sample_env [square_face]) cb))
   \<and> glb_written (convert_step_to_glb (sample_env [square_face]) cb)
   \<and> vertices (final (convert_step_to_glb (sample_env [square_face]) cb))
       = [(0, 0, 0), (1, 0, 0), (1, 1, 0), (0, 1, 0)]
   \<and> faces (final (convert_step_to_glb (sample_env [square_face]) cb)) = [(0, 1, 2), (0, 2, 3)]
   \<and> vertex_map (final (convert_step_to_glb (sample_env [square_face]) cb))
       = [(0, 0, 0) \<mapsto> 0, (1, 0, 0) \<mapsto> 1, (1, 1, 0) \<mapsto> 2, (0, 1, 0) \<mapsto> 3]"
  by (simp add: convert_of_try_block try_block_reaches_walk extract_stage_walk sample_env_fields
      square_walk export_stage_sample emit_fields)

lemma square_run_calls:
  "map percent (calls (final (convert_step_to_glb (sample_env [square_face]) (Some f))))
     = [Some 1, Some 5, Some 8, Some 12, Some 90, Some 90, Some 100]
   \<and> map state (calls (final (convert_step_to_glb (sample_env [square_face]) (Some f))))
     = [Some ''starting'', Some ''loaded'', Some ''meshing'', Some ''meshed'',
        Some ''processing'', Some ''exporting'', Some ''finished'']"
  by (simp add: convert_of_try_block try_block_reaches_walk extract_stage_walk sample_env_fields
      square_walk export_stage_sample emit_fields calls_emit safe_call_progress_Some
      calls_meshed_state progress_event_def)

lemma no_faces_run:
  "result (convert_step_to_glb (sample_env []) cb) = (False, ''No faces found in STEP file.'')
   \<and> final (convert_step_to_glb (sample_env []) cb)
       = emit cb 0 ''error'' ''No faces found in STEP'' (meshed_state cb)"
  by (simp add: convert_of_try_block try_block_reaches_walk extract_stage_no_faces sample_env_fields)









lemma no_faces_calls:
  "map percent (calls (final (convert_step_to_glb (sample_env []) (Some f))))
     = [Some 1, Some 5, Some 8, Some 12, Some 0]
   \<and> map state (calls (final (convert_step_to_glb (sample_env []) (Some f))))
     = [Some ''starting'', Some ''loaded'', Some ''meshing'', Some ''meshed'', Some ''error'']"
  by (simp add: no_faces_run calls_emit safe_call_progress_Some calls_meshed_state progress_event_def)

section \<open>Claim C2: when a processing update is emitted\<close>


section \<open>Claim C4: triangle indices stay valid\<close>

text \<open>
  C4: at every point of a conversion and in the final mesh, each of the three indices of
  every appended triangle is smaller than the number of vertices, and every vertex
  insertion and every triangle append preserves this. The invariant that is preserved
  is the pair of \<open>indices_valid\<close> and \<open>table_sound\<close> (the lookups of a triangle read the
  table). It holds in the state a conversion ends with, whatever the way it ends, and
  each step of the walk keeps it, also a step that ends with an exception.
\<close>

theorem C4_indices_valid:
  "(\<forall>(a, b, c) \<in> set (faces (final (convert_step_to_glb E cb))).
       a < length (vertices (final (convert_step_to_glb E cb)))
     \<and> b < length (vertices (final (convert_step_to_glb E cb)))
     \<and> c < length (vertices (final (convert_step_to_glb E cb))))
   \<and> (table_sound s \<and> indices_valid s \<longrightarrow>
         table_sound (append_vertex s k) \<and> indices_valid (append_vertex s k)
       \<and> table_sound (insert_node E tr s p) \<and> indices_valid (insert_node E tr s p)
       \<and> table_sound (append_triangle s ka kb kc) \<and> indices_valid (append_triangle s ka kb kc)
       \<and> table_sound (fst (add_triangle E t tr s tri)) \<and> indices_valid (fst (add_triangle E t tr s tri))
       \<and> table_sound (fst (add_face E t tr s)) \<and> indices_valid (fst (add_face E t tr s))
       \<and> table_sound (fst (face_loop E cb n s ex)) \<and> indices_valid (fst (face_loop E cb n s ex)))"
proof (intro conjI impI)
  have "indices_valid (final (convert_step_to_glb E cb))" using convert_inv by blast
  then show "\<forall>(a, b, c) \<in> set (faces (final (convert_step_to_glb E cb))).
       a < length (vertices (final (convert_step_to_glb E cb)))
     \<and> b < length (vertices (final (convert_step_to_glb E cb)))
     \<and> c < length (vertices (final (convert_step_to_glb E cb)))"
    by (simp add: indices_valid_def list_all_iff)
next
  assume h: "table_sound s \<and> indices_valid s"
  then have ts: "table_sound s" and iv: "indices_valid s" by simp_all
  show "table_sound (append_vertex s k)" using ts by (rule append_vertex_sound)
  show "indices_valid (append_vertex s k)" using iv by (rule append_vertex_valid)
  show "table_sound (insert_node E tr s p)" using ts by (rule insert_node_sound)
  show "indices_valid (insert_node E tr s p)" using iv by (rule insert_node_valid)
  show "table_sound (append_triangle s ka kb kc)" using append_triangle_inv [OF ts iv] by simp
  show "indices_valid (append_triangle s ka kb kc)" using append_triangle_inv [OF ts iv] by simp
  show "table_sound (fst (add_triangle E t tr s tri))"
    using add_triangle_inv [OF ts iv, of E t tr tri] by (rule conjunct1)
  show "indices_valid (fst (add_triangle E t tr s tri))"
    using add_triangle_inv [OF ts iv, of E t tr tri] by (rule conjunct2)
  show "table_sound (fst (add_face E t tr s))"
    using add_face_inv [OF ts iv, of E t tr] by (rule conjunct1)
  show "indices_valid (fst (add_face E t tr s))"
    using add_face_inv [OF ts iv, of E t tr] by (rule conjunct2)
  show "table_sound (fst (face_loop E cb n s ex))"
    using face_loop_inv [OF h, of E cb n ex] by (rule conjunct1)
  show "indices_valid (fst (face_loop E cb n s ex))"
    using face_loop_inv [OF h, of E cb n ex] by (rule conjunct2)
qed

lemma first_triangle:
  "append_triangle (init_state :: int conv_state) (0, 0, 0) (1, 0, 0) (0, 1, 0)
     = \<lparr>vertices = [(0, 0, 0), (1, 0, 0), (0, 1, 0)], faces = [(0, 1, 2)],
        vertex_map = [(0, 0, 0) \<mapsto> 0, (1, 0, 0) \<mapsto> 1, (0, 1, 0) \<mapsto> 2],
        face_processed = 0, tri_count = 1, calls = []\<rparr>"
  by (simp add: append_triangle_def insert_missing_def append_vertex_def init_state_def Let_def
      numeral_2_eq_2)

theorem C4_indices_valid_witness:
  "table_sound (init_state :: int conv_state) \<and> indices_valid (init_state :: int conv_state)
   \<and> faces (append_triangle (init_state :: int conv_state) (0, 0, 0) (1, 0, 0) (0, 1, 0)) = [(0, 1, 2)]
   \<and> length (vertices (append_triangle (init_state :: int conv_state) (0, 0, 0) (1, 0, 0) (0, 1, 0))) = 3
   \<and> indices_valid (append_triangle (init_state :: int conv_state) (0, 0, 0) (1, 0, 0) (0, 1, 0))
   \<and> faces (final (convert_step_to_glb (sample_env [square_face]) quiet_cb)) = [(0, 1, 2), (0, 2, 3)]
   \<and> length (vertices (final (convert_step_to_glb (sample_env [square_face]) quiet_cb))) = 4"
proof -
  have h: "table_sound (init_state :: int conv_state) \<and> indices_valid (init_state :: int conv_state)"
    by (rule init_state_inv)
  have "indices_valid (append_triangle (init_state :: int conv_state) (0, 0, 0) (1, 0, 0) (0, 1, 0))"
    using C4_indices_valid [of "sample_env [square_face]" quiet_cb "init_state :: int conv_state"
      "(0, 0, 0)" "Inr id" "(0, 0, 0)" "(0, 0, 0)" "(1, 0, 0)" "(0, 1, 0)" unit_square "(1, 2, 3)" 1 "[]"] h
    by blast
  then show ?thesis
    using h square_run_mesh [of quiet_cb] by (simp add: first_triangle)
qed

section \<open>Claim C10: the stored vertices are the rounded keys\<close>

lemma insert_missing_vertices:
  assumes "insert_missing s c i = (s', j)"
  shows "set (vertices s') \<subseteq> insert c (set (vertices s))"
  using insert_missing_cases [OF assms] by (auto simp: append_vertex_fields)

lemma append_triangle_vertices:
  "set (vertices (append_triangle s ca cb cc)) \<subseteq> {ca, cb, cc} \<union> set (vertices s)"
proof -
  obtain s1 ia where 1: "insert_missing s ca (vertex_map s ca) = (s1, ia)"
    by (cases "insert_missing s ca (vertex_map s ca)")
  obtain s2 ib where 2: "insert_missing s1 cb (vertex_map s cb) = (s2, ib)"
    by (cases "insert_missing s1 cb (vertex_map s cb)")
  obtain s3 ic where 3: "insert_missing s2 cc (vertex_map s cc) = (s3, ic)"
    by (cases "insert_missing s2 cc (vertex_map s cc)")
  have "vertices (append_triangle s ca cb cc) = vertices s3"
    by (simp add: append_triangle_unfold [OF 1 2 3])
  then show ?thesis
    using insert_missing_vertices [OF 1] insert_missing_vertices [OF 2] insert_missing_vertices [OF 3]
    by auto
qed

lemma insert_node_rounded:
  assumes "set (vertices s) \<subseteq> range (coord_of E)"
  shows "set (vertices (insert_node E tr s p)) \<subseteq> range (coord_of E)"
  using assms by (auto simp: insert_node_def Let_def append_vertex_fields)

lemma insert_nodes_rounded:
  assumes "set (vertices s) \<subseteq> range (coord_of E)"
  shows "set (vertices (insert_nodes E tr s ps)) \<subseteq> range (coord_of E)"
  using assms unfolding insert_nodes_def
  by (induction ps arbitrary: s) (simp_all add: insert_node_rounded)

lemma add_triangle_rounded:
  assumes "set (vertices s) \<subseteq> range (coord_of E)"
  shows "set (vertices (fst (add_triangle E t tr s tri))) \<subseteq> range (coord_of E)"
proof -
  have "set (vertices (append_triangle s (coord_of E a) (coord_of E b) (coord_of E c)))
          \<subseteq> range (coord_of E)" for a b c
    using append_triangle_vertices [of s "coord_of E a" "coord_of E b" "coord_of E c"] assms
    by auto
  then show ?thesis
    using assms by (auto simp: add_triangle_def Let_def split: prod.splits sum.splits)
qed

lemma add_triangles_rounded:
  assumes "set (vertices s) \<subseteq> range (coord_of E)"
  shows "set (vertices (fst (add_triangles E t tr s tris))) \<subseteq> range (coord_of E)"
  using assms
proof (induction tris arbitrary: s)
  case Nil
  then show ?case by simp
next
  case (Cons tri rest)
  obtain s1 r where 1: "add_triangle E t tr s tri = (s1, r)" by (cases "add_triangle E t tr s tri")
  have inv1: "set (vertices s1) \<subseteq> range (coord_of E)"
    using add_triangle_rounded [OF Cons.prems, of t tr tri] 1 by simp
  show ?case
  proof (cases r)
    case None
    then show ?thesis using 1 Cons.IH [OF inv1] by simp
  next
    case (Some e)
    then show ?thesis using 1 inv1 by simp
  qed
qed

lemma add_face_rounded:
  assumes "set (vertices s) \<subseteq> range (coord_of E)"
  shows "set (vertices (fst (add_face E t tr s))) \<subseteq> range (coord_of E)"
  unfolding add_face_def by (intro add_triangles_rounded insert_nodes_rounded assms)

lemma face_loop_rounded:
  assumes "set (vertices s) \<subseteq> range (coord_of E)"
  shows "set (vertices (fst (face_loop E cb n s ex))) \<subseteq> range (coord_of E)"
proof -
  have inc: "set (vertices (s'\<lparr>face_processed := face_processed s' + 1\<rparr>)) \<subseteq> range (coord_of E)"
    if "set (vertices s') \<subseteq> range (coord_of E)" for s'
    using that by simp
  have em: "set (vertices (emit cb p st m s')) \<subseteq> range (coord_of E)"
    if "set (vertices s') \<subseteq> range (coord_of E)" for s' p st m
    using that by (simp add: emit_fields)
  have face: "set (vertices (fst (add_face E t tr s'))) \<subseteq> range (coord_of E)"
    if "set (vertices s') \<subseteq> range (coord_of E)" for s' t tr
    using that by (rule add_face_rounded)
  show ?thesis
    by (rule face_loop_invariant [where P = "\<lambda>s. set (vertices s) \<subseteq> range (coord_of E)", OF assms])
       (simp_all only: inc em face)
qed

lemma convert_rounded:
  "set (vertices (final (convert_step_to_glb E cb))) \<subseteq> range (coord_of E)"
proof -
  have i: "set (vertices init_state) \<subseteq> range (coord_of E)" by (simp add: init_state_def)
  have em: "set (vertices (emit cb p st m s')) \<subseteq> range (coord_of E)"
    if "set (vertices s') \<subseteq> range (coord_of E)" for s' p st m
    using that by (simp add: emit_fields)
  show ?thesis
    by (rule convert_invariant [where P = "\<lambda>s. set (vertices s) \<subseteq> range (coord_of E)", OF i])
       (simp_all only: em face_loop_rounded)
qed

text \<open>
  C10: every vertex stored in the output mesh is exactly its rounded key: for every key
  \<open>k\<close> of the vertex table, the vertex at the index the table gives for \<open>k\<close> is the triple
  \<open>k\<close>; and every stored vertex is the rounding \<open>coord_of E p\<close> of some point, never an
  unrounded one.
\<close>

theorem C10_vertex_is_rounded_key:
  "(vertex_map (final (convert_step_to_glb E cb)) k = Some i \<longrightarrow>
      i < length (vertices (final (convert_step_to_glb E cb)))
      \<and> vertices (final (convert_step_to_glb E cb)) ! i = k)
   \<and> (v \<in> set (vertices (final (convert_step_to_glb E cb))) \<longrightarrow> (\<exists>p. v = coord_of E p))"
proof (intro conjI impI)
  assume a: "vertex_map (final (convert_step_to_glb E cb)) k = Some i"
  have "table_sound (final (convert_step_to_glb E cb))" using convert_inv by blast
  then show "i < length (vertices (final (convert_step_to_glb E cb)))"
    and "vertices (final (convert_step_to_glb E cb)) ! i = k"
    using a unfolding table_sound_def by blast+
next
  assume "v \<in> set (vertices (final (convert_step_to_glb E cb)))"
  then have "v \<in> range (coord_of E)" using convert_rounded [of E cb] by (rule subsetD [rotated])
  then show "\<exists>p. v = coord_of E p" by (rule rangeE) blast
qed

theorem C10_vertex_is_rounded_key_witness:
  "vertex_map (final (convert_step_to_glb (sample_env [square_face]) quiet_cb)) (1, 1, 0) = Some 2
   \<and> (1, 1, 0) \<in> set (vertices (final (convert_step_to_glb (sample_env [square_face]) quiet_cb)))
   \<and> vertices (final (convert_step_to_glb (sample_env [square_face]) quiet_cb)) ! 2 = (1, 1, 0)
   \<and> (\<exists>p. (1, 1, 0) = coord_of (sample_env [square_face]) p)"
proof -
  have m: "vertex_map (final (convert_step_to_glb (sample_env [square_face]) quiet_cb)) (1, 1, 0) = Some 2"
    using square_run_mesh [of quiet_cb] by simp
  have v: "(1, 1, 0) \<in> set (vertices (final (convert_step_to_glb (sample_env [square_face]) quiet_cb)))"
    using square_run_mesh [of quiet_cb] by simp
  show ?thesis
    using C10_vertex_is_rounded_key [of "sample_env [square_face]" quiet_cb "(1, 1, 0)" 2 "(1, 1, 0)"] m v
    by blast
qed

section \<open>Claim C7: a shape without faces\<close>

text \<open>
  C7: when the counting walk finds no face, the conversion fails with the error
  ``no faces found'' before any mesh work: the local state is the one the face walk
  would have started from (no vertex, no triangle, an empty table, no face processed)
  with one more call of the callback, the checkpoint of percent 0 and state \<open>error\<close>.
  That checkpoint is the only one of state \<open>error\<close> and the last one; the four
  checkpoints of the stages before the walk precede it.
\<close>

theorem C7_no_faces_found:
  assumes "src_exists E" and "import_libs E = None" and "ReadFile E = Inr IFSelect_RetDone"
    and "OneShape E = None" and "BRepMesh E = None"
    and "count_faces E (shape E) 0 = Inr 0"
  shows "result (convert_step_to_glb E cb) = (False, ''No faces found in STEP file.'')
         \<and> \<not> glb_written (convert_step_to_glb E cb)
         \<and> final (convert_step_to_glb E cb)
             = emit cb 0 ''error'' ''No faces found in STEP'' (meshed_state cb)
         \<and> vertices (final (convert_step_to_glb E cb)) = []
         \<and> faces (final (convert_step_to_glb E cb)) = []
         \<and> vertex_map (final (convert_step_to_glb E cb)) = Map.empty
         \<and> face_processed (final (convert_step_to_glb E cb)) = 0
         \<and> tri_count (final (convert_step_to_glb E cb)) = 0
         \<and> calls (final (convert_step_to_glb E (Some f)))
             = [progress_event 1 ''starting'' ''Starting conversion'',
                progress_event 5 ''loaded'' ''STEP file loaded'',
                progress_event 8 ''meshing'' ''Starting tessellation'',
                progress_event 12 ''meshed'' ''Tessellation complete'',
                progress_event 0 ''error'' ''No faces found in STEP'']
         \<and> with_state ''error'' (calls (final (convert_step_to_glb E (Some f))))
             = [progress_event 0 ''error'' ''No faces found in STEP'']"
proof -
  have e: "shape E = []" using assms(6) by (simp add: count_faces_eq)
  have r: "convert_step_to_glb E c =
             \<lparr>result = (False, ''No faces found in STEP file.''),
              final = emit c 0 ''error'' ''No faces found in STEP'' (meshed_state c),
              glb_written = False\<rparr>" for c
    using assms(1-5) e
    by (simp add: convert_of_try_block try_block_reaches_walk extract_stage_no_faces)
  show ?thesis
    by (simp add: r emit_fields meshed_state_fields calls_emit safe_call_progress_Some
        calls_meshed_state with_state_def progress_event_def)
qed

theorem C7_no_faces_found_witness:
  "src_exists (sample_env []) \<and> import_libs (sample_env []) = None
   \<and> ReadFile (sample_env []) = Inr IFSelect_RetDone \<and> OneShape (sample_env []) = None
   \<and> BRepMesh (sample_env []) = None \<and> count_faces (sample_env []) (shape (sample_env [])) 0 = Inr 0
   \<and> result (convert_step_to_glb (sample_env []) quiet_cb) = (False, ''No faces found in STEP file.'')
   \<and> map percent (calls (final (convert_step_to_glb (sample_env []) quiet_cb)))
       = [Some 1, Some 5, Some 8, Some 12, Some 0]"
proof -
  have h: "src_exists (sample_env [])" "import_libs (sample_env []) = None"
    "ReadFile (sample_env []) = Inr IFSelect_RetDone" "OneShape (sample_env []) = None"
    "BRepMesh (sample_env []) = None" "count_faces (sample_env []) (shape (sample_env [])) 0 = Inr 0"
    by (simp_all add: sample_env_fields count_faces_eq)
  note t = C7_no_faces_found [OF h, of quiet_cb "\<lambda>calls ev. Returned"]
  have r: "result (convert_step_to_glb (sample_env []) quiet_cb) = (False, ''No faces found in STEP file.'')"
    using t by (rule conjunct1)
  have "calls (final (convert_step_to_glb (sample_env []) (Some (\<lambda>calls ev. Returned))))
             = [progress_event 1 ''starting'' ''Starting conversion'',
                progress_event 5 ''loaded'' ''STEP file loaded'',
                progress_event 8 ''meshing'' ''Starting tessellation'',
                progress_event 12 ''meshed'' ''Tessellation complete'',
                progress_event 0 ''error'' ''No faces found in STEP'']"
    using t by blast
  then have c: "map percent (calls (final (convert_step_to_glb (sample_env []) quiet_cb)))
       = [Some 1, Some 5, Some 8, Some 12, Some 0]"
    by (simp add: quiet_cb_def progress_event_def)
  show ?thesis using h r c by simp
qed

section \<open>Claim C8: a walk that extracts nothing\<close>

text \<open>
  C8: when the walk over a shape with at least one face completes and the mesh has no
  vertex or no triangle, the conversion fails with the error ``no mesh extracted'',
  which is not the error of a shape without faces, and nothing is exported.
\<close>

theorem C8_no_mesh_extracted:
  assumes "src_exists E" and "import_libs E = None" and "ReadFile E = Inr IFSelect_RetDone"
    and "OneShape E = None" and "BRepMesh E = None"
    and "shape E \<noteq> []"
    and "face_loop E cb (length (shape E)) (meshed_state cb) (shape E) = (s, None)"
    and "vertices s = [] \<or> faces s = []"
  shows "result (convert_step_to_glb E cb) = (False, ''No mesh extracted from STEP file.'')
         \<and> result (convert_step_to_glb E cb) \<noteq> (False, ''No faces found in STEP file.'')
         \<and> \<not> glb_written (convert_step_to_glb E cb)
         \<and> final (convert_step_to_glb E cb)
             = emit cb 0 ''error'' ''No mesh extracted from STEP file.'' s"
proof -
  have x: "export_stage E cb (length (shape E)) s =
             (emit cb 0 ''error'' ''No mesh extracted from STEP file.'' s,
              Inr ((False, ''No mesh extracted from STEP file.''), False))"
    using assms(8) by (auto simp: export_stage_def)
  show ?thesis
    using assms(1-7)
    by (simp add: convert_of_try_block try_block_reaches_walk extract_stage_walk x)
qed

lemma bare_square_walk:
  "face_loop (sample_env fs) cb (Suc (Suc 0)) (meshed_state cb) [bare_face, square_face]
     = ((meshed_state cb)\<lparr>face_processed := 1\<rparr>, None)"
  by (simp add: face_loop_Cons face_loop_Nil bare_face_def Next_Cons meshed_state_fields)

theorem C8_no_mesh_extracted_witness:
  "src_exists (sample_env [bare_face, square_face])
   \<and> import_libs (sample_env [bare_face, square_face]) = None
   \<and> ReadFile (sample_env [bare_face, square_face]) = Inr IFSelect_RetDone
   \<and> OneShape (sample_env [bare_face, square_face]) = None
   \<and> BRepMesh (sample_env [bare_face, square_face]) = None
   \<and> shape (sample_env [bare_face, square_face]) \<noteq> []
   \<and> face_loop (sample_env [bare_face, square_face]) quiet_cb
        (length (shape (sample_env [bare_face, square_face]))) (meshed_state quiet_cb)
        (shape (sample_env [bare_face, square_face]))
        = ((meshed_state quiet_cb)\<lparr>face_processed := 1\<rparr>, None)
   \<and> vertices ((meshed_state quiet_cb :: int conv_state)\<lparr>face_processed := 1\<rparr>) = []
   \<and> result (convert_step_to_glb (sample_env [bare_face, square_face]) quiet_cb)
        = (False, ''No mesh extracted from STEP file.'')
   \<and> \<not> glb_written (convert_step_to_glb (sample_env [bare_face, square_face]) quiet_cb)"
proof -
  have h: "src_exists (sample_env [bare_face, square_face])"
    "import_libs (sample_env [bare_face, square_face]) = None"
    "ReadFile (sample_env [bare_face, square_face]) = Inr IFSelect_RetDone"
    "OneShape (sample_env [bare_face, square_face]) = None"
    "BRepMesh (sample_env [bare_face, square_face]) = None"
    "shape (sample_env [bare_face, square_face]) \<noteq> []"
    by (simp_all add: sample_env_fields)
  have w: "face_loop (sample_env [bare_face, square_face]) quiet_cb
        (length (shape (sample_env [bare_face, square_face]))) (meshed_state quiet_cb)
        (shape (sample_env [bare_face, square_face]))
        = ((meshed_state quiet_cb)\<lparr>face_processed := 1\<rparr>, None)"
    by (simp add: sample_env_fields bare_square_walk)
  have v: "vertices ((meshed_state quiet_cb :: int conv_state)\<lparr>face_processed := 1\<rparr>) = []
           \<or> faces ((meshed_state quiet_cb :: int conv_state)\<lparr>face_processed := 1\<rparr>) = []"
    by (simp add: meshed_state_fields)
  show ?thesis
    using C8_no_mesh_extracted [OF h w v] h w by (simp add: meshed_state_fields)
qed

section \<open>The callback does not influence the conversion\<close>












lemma strip_calls_update [simp]: "strip_calls (s\<lparr>calls := c\<rparr>) = strip_calls s"
  by (simp add: strip_calls_def)

lemma strip_calls_emit [simp]: "strip_calls (emit cb p st m s) = strip_calls s"
  by (simp add: strip_calls_def emit_def)
















section \<open>Claim C9: the callback cannot change the outcome\<close>


end
